theory Spec2Isabelle
  imports Main "HOL-Library.AList" "HOL-Library.Sublist"
begin

section \<open>The Obsidian loader of \<open>loaders.ts\<close>\<close>

text \<open>
  The loader keeps Astro's data store in step with a directory of Markdown files: a full
  pass over the files found by the glob, then handlers for the watcher's \<open>add\<close>,
  \<open>change\<close> and \<open>unlink\<close> events. Everything the loader calls but does not define
  (the file system, the URL helpers, \<open>getEntryInfo\<close>, \<open>generateId\<close>, \<open>isConfigFile\<close>
  and \<open>posixRelative\<close> of \<open>./utils\<close>, Astro's \<open>parseData\<close>, \<open>generateDigest\<close> and
  render function, \<open>fast-glob\<close>, \<open>micromatch\<close>) is a field of the record \<open>env\<close>;
  the theorems hold for every choice of them. A call that can throw returns a sum whose
  left side carries the message of the exception. The last field, \<open>rejects_first\<close>, is
  the timing of a pass: which of the rejected tasks rejected first.
\<close>

subsection \<open>Data\<close>

type_synonym ident = string

text \<open>\<open>RenderedContent\<close>: the loader reads only \<open>rendered?.metadata?.imagePaths\<close>.\<close>

record render_metadata =
  imagePaths :: "string list option"

record rendered_content =
  html :: string
  metadata :: "render_metadata option"

text \<open>An entry of the data store; an optional field is an \<open>option\<close>.\<close>

record data_entry =
  entry_id :: ident
  data :: string
  body :: "string option"
  filePath :: "string option"
  digest :: "string option"
  rendered :: "rendered_content option"
  assetImports :: "string list option"
  deferredRender :: bool

text \<open>\<open>pattern?: string | Array<string>\<close>\<close>

datatype glob_pattern = Single string | Several "string list"

record loader_options =
  opt_pattern :: "glob_pattern option"
  opt_base :: "string option"
  opt_i18n :: "bool option"
  opt_url :: "string option"
  opt_author :: "string option"

text \<open>The fifth argument of \<open>getEntryInfo\<close>.\<close>

record entry_context =
  ctx_author :: "string option"
  ctx_baseUrl :: string
  ctx_files :: "string list"
  ctx_i18n :: "bool option"
  ctx_defaultLocale :: "string option"

text \<open>The exceptions that leave \<open>syncData\<close>, each with its message.\<close>

datatype error = StatError string | EntryInfoError string | ParseDataError string

datatype outcome = Fulfilled | Rejected error

record env =
  opts :: loader_options
  collection :: string
  config_root :: string
  config_defaultLocale :: "string option"
  watcher :: bool
  readFile :: "string \<Rightarrow> string + string"
  stat :: "string \<Rightarrow> string + nat"
  getEntryInfo :: "string \<Rightarrow> string \<Rightarrow> string \<Rightarrow> nat \<Rightarrow> entry_context
                     \<Rightarrow> string + (string \<times> string)"
  generateId :: "string \<Rightarrow> string \<Rightarrow> string \<Rightarrow> ident"
  generateDigest :: "string \<Rightarrow> string"
  parseData :: "ident \<Rightarrow> string \<Rightarrow> string \<Rightarrow> string + string"
  render :: "ident \<Rightarrow> string \<Rightarrow> string \<Rightarrow> string \<Rightarrow> string \<Rightarrow> string + rendered_content"
  isConfigFile :: "string \<Rightarrow> string \<Rightarrow> bool"
  posixRelative :: "string \<Rightarrow> string \<Rightarrow> string"
  encodeURI :: "string \<Rightarrow> string"
  newURL :: "string \<Rightarrow> string \<Rightarrow> string"
  fileURLToPath :: "string \<Rightarrow> string"
  pathToFileURL :: "string \<Rightarrow> string"
  fastGlob :: "glob_pattern \<Rightarrow> string \<Rightarrow> string list"
  isMatch :: "string \<Rightarrow> glob_pattern \<Rightarrow> bool"
  green :: "string \<Rightarrow> string"
  rejects_first :: "error list \<Rightarrow> nat"

text \<open>
  What the loader does to the outside, in the order it does it: the logger's lines, the
  mutations of the store, and the calls of the splitter, the validator and the renderer.
\<close>

datatype event =
    Logger_error string
  | Logger_warn string
  | Logger_info string
  | Store_set data_entry
  | Store_delete ident
  | Store_addModuleImport string
  | Call_getEntryInfo string string "string list"
  | Call_parseData ident string
  | Call_render ident string

text \<open>
  The state the closures of \<open>ObsidianMdLoader\<close> and \<open>load\<close> share. The store and
  \<open>fileToIdMap\<close> are JavaScript \<open>Map\<close>s and \<open>untouchedEntries\<close> a \<open>Set\<close>, all of
  them iterated in insertion order: association lists and a list. \<open>registered\<close> holds
  what the watch handlers capture when \<open>load\<close> registers them, \<open>files\<close> and
  \<open>basePath\<close>; it is \<open>None\<close> before. (A later \<open>load\<close> makes a new
  \<open>untouchedEntries\<close> and registers handlers of its own; the state keeps the latest.)
\<close>

record state =
  store :: "(ident \<times> data_entry) list"
  untouchedEntries :: "ident list"
  fileToIdMap :: "(string \<times> ident) list"
  trace :: "event list"
  registered :: "(string list \<times> string) option"

datatype watch_event = Add string | Change string | Unlink string

subsection \<open>The store and the logger\<close>

definition emit :: "event \<Rightarrow> state \<Rightarrow> state" where
  "emit ev s = s\<lparr>trace := trace s @ [ev]\<rparr>"

definition store_get :: "state \<Rightarrow> ident \<Rightarrow> data_entry option" where
  "store_get s i = map_of (store s) i"

definition store_keys :: "state \<Rightarrow> ident list" where
  "store_keys s = map fst (store s)"

definition store_set :: "data_entry \<Rightarrow> state \<Rightarrow> state" where
  "store_set e s = emit (Store_set e) (s\<lparr>store := AList.update (entry_id e) e (store s)\<rparr>)"

definition store_delete :: "ident \<Rightarrow> state \<Rightarrow> state" where
  "store_delete i s = emit (Store_delete i) (s\<lparr>store := AList.delete i (store s)\<rparr>)"

definition store_addModuleImport :: "string \<Rightarrow> state \<Rightarrow> state" where
  "store_addModuleImport p s = emit (Store_addModuleImport p) s"

text \<open>JavaScript's truthiness of a \<open>string | undefined\<close>: a non-empty string.\<close>

fun truthy :: "string option \<Rightarrow> bool" where
  "truthy None = False"
| "truthy (Some x) = (x \<noteq> [])"

subsection \<open>The loader\<close>

definition DEFAULT_PATTERN :: glob_pattern where
  "DEFAULT_PATTERN = Single ''**/*.md''"

text \<open>\<open>opts.pattern ?? DEFAULT_PATTERN\<close>\<close>

definition pattern :: "env \<Rightarrow> glob_pattern" where
  "pattern env = (case opt_pattern (opts env) of None \<Rightarrow> DEFAULT_PATTERN | Some p \<Rightarrow> p)"

text \<open>\<open>opts.url ?? collection\<close>, the \<open>baseUrl\<close> of \<open>load\<close> that \<open>syncData\<close> closes over.\<close>

definition baseUrl :: "env \<Rightarrow> string" where
  "baseUrl env = (case opt_url (opts env) of None \<Rightarrow> collection env | Some u \<Rightarrow> u)"

text \<open>
  \<open>baseDir\<close>: \<open>opts.base ? new URL(opts.base, config.root) : config.root\<close>, with a
  slash appended when the path does not end in one. A URL is the string of its \<open>href\<close>,
  which for these URLs ends with the path.
\<close>

definition baseDir :: "env \<Rightarrow> string" where
  "baseDir env =
     (let b = (if truthy (opt_base (opts env))
               then newURL env (case opt_base (opts env) of Some x \<Rightarrow> x | None \<Rightarrow> [])
                      (config_root env)
               else config_root env)
      in if \<not> suffix ''/'' b then b @ ''/'' else b)"

text \<open>
  \<open>config.root\<close> as \<open>syncData\<close> reads it. When \<open>opts.base\<close> is not given,
  \<open>baseDir\<close> is the URL object \<open>config.root\<close> itself, and the slash is appended to
  \<open>config.root\<close> in place.
\<close>

definition root_of :: "env \<Rightarrow> string" where
  "root_of env = (if truthy (opt_base (opts env)) then config_root env else baseDir env)"

text \<open>
  \<open>syncData\<close>. The promise it returns rejects with the exception of \<open>stat\<close>,
  \<open>getEntryInfo\<close> or \<open>parseData\<close>; what it did to the state before stays done.
  \<open>readFile(...).catch\<close> turns a failed read into \<open>undefined\<close>, here \<open>None\<close>, and
  \<open>stat\<close> is awaited before \<open>contents\<close> is looked at.
\<close>

definition syncData :: "env \<Rightarrow> string \<Rightarrow> string \<Rightarrow> string list \<Rightarrow> state \<Rightarrow> outcome \<times> state" where
  "syncData env entry base files s =
     (let fileUrl = newURL env (encodeURI env entry) base;
          (contents, s1) =
             (case readFile env fileUrl of
                Inl msg \<Rightarrow> (None, emit (Logger_error (''Error reading '' @ entry @ '': '' @ msg)) s)
              | Inr c \<Rightarrow> (Some c, s))
      in case stat env fileUrl of
           Inl msg \<Rightarrow> (Rejected (StatError msg), s1)
         | Inr stats \<Rightarrow>
      if \<not> truthy contents \<and> contents \<noteq> Some ''''
      then (Fulfilled, emit (Logger_warn (''No contents found for '' @ entry)) s1)
      else
     (let text = (case contents of Some c \<Rightarrow> c | None \<Rightarrow> '''');
          ctx = \<lparr>ctx_author = opt_author (opts env), ctx_baseUrl = baseUrl env,
                 ctx_files = files, ctx_i18n = opt_i18n (opts env),
                 ctx_defaultLocale = config_defaultLocale env\<rparr>;
          s2 = emit (Call_getEntryInfo text entry files) s1
      in case getEntryInfo env text fileUrl entry stats ctx of
           Inl msg \<Rightarrow> (Rejected (EntryInfoError msg), s2)
         | Inr (body', data') \<Rightarrow>
     (let i = generateId env entry base data';
          s3 = s2\<lparr>untouchedEntries := removeAll i (untouchedEntries s2)\<rparr>;
          existingEntry = store_get s3 i;
          digest' = generateDigest env text
      in if (case existingEntry of
               None \<Rightarrow> False
             | Some e \<Rightarrow> digest e = Some digest' \<and> truthy (filePath e))
         then (case existingEntry of
                 None \<Rightarrow> (Fulfilled, s3)
               | Some e \<Rightarrow>
                   (Fulfilled,
                    if deferredRender e
                    then store_addModuleImport (case filePath e of Some p \<Rightarrow> p | None \<Rightarrow> []) s3
                    else s3))
         else
     (let filePath' = fileURLToPath env fileUrl;
          relativePath = posixRelative env (fileURLToPath env (root_of env)) filePath';
          s4 = emit (Call_parseData i filePath') s3
      in case parseData env i data' filePath' of
           Inl msg \<Rightarrow> (Rejected (ParseDataError msg), s4)
         | Inr parsedData \<Rightarrow>
     (let s5 = emit (Call_render i filePath') s4;
          (rendered', s6) =
             (case render env i parsedData body' filePath' digest' of
                Inl msg \<Rightarrow> (None, emit (Logger_error (''Error rendering '' @ entry @ '': '' @ msg)) s5)
              | Inr r \<Rightarrow> (Some r, s5));
          s7 = store_set
                 \<lparr>entry_id = i, data = parsedData, body = Some body',
                  filePath = Some relativePath, digest = Some digest',
                  rendered = rendered',
                  assetImports =
                    (case rendered' of
                       None \<Rightarrow> None
                     | Some r \<Rightarrow> (case metadata r of None \<Rightarrow> None | Some m \<Rightarrow> imagePaths m)),
                  deferredRender = False\<rparr> s6
      in (Fulfilled, s7\<lparr>fileToIdMap := AList.update filePath' i (fileToIdMap s7)\<rparr>))))))"

text \<open>
  \<open>await Promise.all(files.map(...))\<close> with \<open>pLimit(10)\<close>. Every entry that is not
  a configuration file gets a task. A rejected task cancels none of the others: \<open>p-limit\<close>
  goes on with its queue and \<open>Promise.all\<close> only settles early, so all of them run.
  \<open>sync_all\<close> gives the rejections of the tasks, listed in the order of \<open>files\<close>, and
  the state once every task has settled. The state goes through the tasks in the order of
  \<open>files\<close>, each task run to its end before the next starts: one of the schedules the
  event loop allows, and tasks that derive different identifiers touch different records.
\<close>

fun rejection :: "outcome \<Rightarrow> error list" where
  "rejection Fulfilled = []"
| "rejection (Rejected e) = [e]"

fun sync_all :: "env \<Rightarrow> string \<Rightarrow> string list \<Rightarrow> string list \<Rightarrow> state \<Rightarrow> error list \<times> state" where
  "sync_all env base files [] s = ([], s)"
| "sync_all env base files (entry # rest) s =
     (if isConfigFile env entry base then sync_all env base files rest s
      else (let (r, s1) = syncData env entry base files s;
                (rs, s2) = sync_all env base files rest s1
            in (rejection r @ rs, s2)))"

text \<open>
  \<open>Promise.all\<close> fulfils when no task rejects, and otherwise rejects with the rejection
  that happens first in time; the other rejections are dropped. Which one is first is not
  decided by the order of the candidates but by how long the reads and the collaborators of
  each task take: \<open>rejects_first env\<close> gives its position among the rejections \<open>rs\<close>.
\<close>

definition promise_all :: "env \<Rightarrow> error list \<Rightarrow> outcome" where
  "promise_all env rs =
     (if rs = [] then Fulfilled else Rejected (rs ! (rejects_first env rs mod length rs)))"

text \<open>
  \<open>load\<close>. When \<open>Promise.all\<close> rejects, the \<open>await\<close> throws and nothing after it
  runs: no stale entry is deleted and no handler is registered. The state given with a
  rejection is the one the tasks leave when all of them have settled; the caller sees the
  rejection before that. The shared setup (\<open>getRenderFunction\<close>, \<open>fastGlob\<close>) is taken
  to succeed; \<open>render\<close> is the function that \<open>getRenderFunction\<close> returned.
\<close>

definition load :: "env \<Rightarrow> state \<Rightarrow> outcome \<times> state" where
  "load env s =
     (let s0 = s\<lparr>untouchedEntries := store_keys s\<rparr>;
          files = fastGlob env (pattern env) (fileURLToPath env (baseDir env));
          (rs, s1) = sync_all env (baseDir env) files files s0
      in case promise_all env rs of
           Rejected e \<Rightarrow> (Rejected e, s1)
         | Fulfilled \<Rightarrow>
             (let s2 = fold store_delete (untouchedEntries s1) s1
              in if \<not> watcher env then (Fulfilled, s2)
                 else (Fulfilled,
                       s2\<lparr>registered := Some (files, fileURLToPath env (baseDir env))\<rparr>)))"

subsection \<open>The watch handlers\<close>

definition matchesGlob :: "env \<Rightarrow> string \<Rightarrow> bool" where
  "matchesGlob env entry \<longleftrightarrow> \<not> prefix ''../'' entry \<and> isMatch env entry (pattern env)"

text \<open>\<open>files\<close> and \<open>basePath\<close> are the constants of \<open>load\<close> the handler closes over.\<close>

definition onChange :: "env \<Rightarrow> string list \<Rightarrow> string \<Rightarrow> string \<Rightarrow> state \<Rightarrow> outcome \<times> state" where
  "onChange env files basePath changedPath s =
     (let entry = posixRelative env basePath changedPath
      in if \<not> matchesGlob env entry then (Fulfilled, s)
         else (let baseUrl' = pathToFileURL env basePath;
                   (r, s1) = syncData env entry baseUrl' files s
               in case r of
                    Rejected e \<Rightarrow> (Rejected e, s1)
                  | Fulfilled \<Rightarrow>
                      (Fulfilled, emit (Logger_info (''Reloaded data from '' @ green env entry)) s1)))"

definition onUnlink :: "env \<Rightarrow> string \<Rightarrow> string \<Rightarrow> state \<Rightarrow> outcome \<times> state" where
  "onUnlink env basePath deletedPath s =
     (let entry = posixRelative env basePath deletedPath
      in if \<not> matchesGlob env entry then (Fulfilled, s)
         else (case map_of (fileToIdMap s) deletedPath of
                 None \<Rightarrow> (Fulfilled, s)
               | Some i \<Rightarrow>
                   if truthy (Some i)
                   then (let s1 = store_delete i s
                         in (Fulfilled, s1\<lparr>fileToIdMap := AList.delete deletedPath (fileToIdMap s1)\<rparr>))
                   else (Fulfilled, s)))"

text \<open>The watcher delivers an event to the handler registered for it, if any.\<close>

fun handle_event :: "env \<Rightarrow> watch_event \<Rightarrow> state \<Rightarrow> outcome \<times> state" where
  "handle_event env ev s =
     (case registered s of
        None \<Rightarrow> (Fulfilled, s)
      | Some (files, basePath) \<Rightarrow>
          (case ev of
             Add p \<Rightarrow> onChange env files basePath p s
           | Change p \<Rightarrow> onChange env files basePath p s
           | Unlink p \<Rightarrow> onUnlink env basePath p s))"

subsection \<open>What one entry's task will do\<close>

text \<open>
  Everything \<open>syncData\<close> reads apart from the store is fixed by the environment, so
  the course of a task is known up to the digest comparison: it returns after the failed
  read (\<open>Skip\<close>), it rejects before an identifier exists (\<open>Abort\<close>), or it derives
  an identifier and a digest and, unless the store already has that digest, rejects in
  \<open>parseData\<close> or writes a record (\<open>Sync\<close>). The lemmas below show that
  \<open>syncData\<close> does to the store, to \<open>untouchedEntries\<close> and to its promise what
  the plan says.
\<close>

definition fileUrl_of :: "env \<Rightarrow> string \<Rightarrow> string \<Rightarrow> string" where
  "fileUrl_of env entry base = newURL env (encodeURI env entry) base"

definition context_of :: "env \<Rightarrow> string list \<Rightarrow> entry_context" where
  "context_of env files =
     \<lparr>ctx_author = opt_author (opts env), ctx_baseUrl = baseUrl env,
      ctx_files = files, ctx_i18n = opt_i18n (opts env),
      ctx_defaultLocale = config_defaultLocale env\<rparr>"

definition relativePath_of :: "env \<Rightarrow> string \<Rightarrow> string \<Rightarrow> string" where
  "relativePath_of env entry base =
     posixRelative env (fileURLToPath env (root_of env))
       (fileURLToPath env (fileUrl_of env entry base))"

datatype plan = Skip | Abort error | Sync ident string "error + data_entry"

definition plan_of :: "env \<Rightarrow> string \<Rightarrow> string \<Rightarrow> string list \<Rightarrow> plan" where
  "plan_of env entry base files =
     (let fileUrl = fileUrl_of env entry base
      in case stat env fileUrl of
           Inl m \<Rightarrow> Abort (StatError m)
         | Inr stats \<Rightarrow>
             (case readFile env fileUrl of
                Inl m \<Rightarrow> Skip
              | Inr c \<Rightarrow>
                  (case getEntryInfo env c fileUrl entry stats (context_of env files) of
                     Inl m \<Rightarrow> Abort (EntryInfoError m)
                   | Inr (b, d) \<Rightarrow>
                       (let i = generateId env entry base d;
                            dg = generateDigest env c;
                            fp = fileURLToPath env fileUrl
                        in Sync i dg
                             (case parseData env i d fp of
                                Inl m \<Rightarrow> Inl (ParseDataError m)
                              | Inr pd \<Rightarrow>
                                  (let rd = (case render env i pd b fp dg of
                                               Inl m \<Rightarrow> None | Inr r \<Rightarrow> Some r)
                                   in Inr \<lparr>entry_id = i, data = pd, body = Some b,
                                           filePath = Some (relativePath_of env entry base),
                                           digest = Some dg, rendered = rd,
                                           assetImports =
                                             (case rd of
                                                None \<Rightarrow> None
                                              | Some r \<Rightarrow>
                                                  (case metadata r of
                                                     None \<Rightarrow> None
                                                   | Some m \<Rightarrow> imagePaths m)),
                                           deferredRender = False\<rparr>))))))"

text \<open>
  The test of the fast path: the store has a record for the identifier, with this digest
  and a truthy \<open>filePath\<close>.
\<close>

definition hit :: "(ident \<times> data_entry) list \<Rightarrow> ident \<Rightarrow> string \<Rightarrow> bool" where
  "hit st i dg =
     (case map_of st i of None \<Rightarrow> False | Some e \<Rightarrow> digest e = Some dg \<and> truthy (filePath e))"

text \<open>
  The writes to the store are its \<open>set\<close>s and \<open>delete\<close>s, the calls that change a
  record. \<open>addModuleImport\<close> changes none; the fast path uses it to tell the store of
  a module a deferred render depends on.
\<close>

fun is_store_write :: "event \<Rightarrow> bool" where
  "is_store_write (Store_set e) = True"
| "is_store_write (Store_delete i) = True"
| "is_store_write ev = False"

definition store_writes :: "state \<Rightarrow> event list" where
  "store_writes s = filter is_store_write (trace s)"

text \<open>
  The identifier a task derives for an entry, if it gets as far as \<open>generateId\<close>, and
  the identifiers the tasks of a pass derive for the entries \<open>es\<close>.
\<close>

definition derived_id :: "env \<Rightarrow> string \<Rightarrow> string \<Rightarrow> string list \<Rightarrow> ident option" where
  "derived_id env entry base files =
     (let fileUrl = newURL env (encodeURI env entry) base
      in case readFile env fileUrl of
           Inl m \<Rightarrow> None
         | Inr c \<Rightarrow>
             (case stat env fileUrl of
                Inl m \<Rightarrow> None
              | Inr stats \<Rightarrow>
                  (case getEntryInfo env c fileUrl entry stats (context_of env files) of
                     Inl m \<Rightarrow> None
                   | Inr (b, d) \<Rightarrow> Some (generateId env entry base d))))"

definition derived_ids :: "env \<Rightarrow> string \<Rightarrow> string list \<Rightarrow> string list \<Rightarrow> ident list" where
  "derived_ids env base files es =
     List.map_filter
       (\<lambda>e. if isConfigFile env e base then None else derived_id env e base files) es"

text \<open>
  What the loader relies on and its helpers are to provide: two candidates of a pass do not
  derive the same identifier, and the path stored with a record, \<open>filePath\<close> relative to
  the root, is not the empty string.
\<close>

definition distinct_ids :: "env \<Rightarrow> string \<Rightarrow> string list \<Rightarrow> bool" where
  "distinct_ids env base files \<longleftrightarrow>
     (\<forall>e\<in>set files. \<forall>e'\<in>set files.
        \<not> isConfigFile env e base \<longrightarrow> \<not> isConfigFile env e' base \<longrightarrow>
        derived_id env e base files \<noteq> None \<longrightarrow>
        derived_id env e base files = derived_id env e' base files \<longrightarrow> e = e')"

definition paths_known :: "env \<Rightarrow> string \<Rightarrow> string list \<Rightarrow> bool" where
  "paths_known env base files \<longleftrightarrow> (\<forall>e\<in>set files. relativePath_of env e base \<noteq> [])"

text \<open>Whether a task with this plan rejects when it starts on the store \<open>st\<close>.\<close>

fun rejecting :: "(ident \<times> data_entry) list \<Rightarrow> plan \<Rightarrow> bool" where
  "rejecting st Skip = False"
| "rejecting st (Abort x) = True"
| "rejecting st (Sync i dg (Inl x)) = (\<not> hit st i dg)"
| "rejecting st (Sync i dg (Inr r)) = False"

subsection \<open>The full pass, in parts\<close>

text \<open>\<open>files\<close>, the candidate list of \<open>load\<close>, and the pass up to the \<open>await\<close>.\<close>

definition glob_files :: "env \<Rightarrow> string list" where
  "glob_files env = fastGlob env (pattern env) (fileURLToPath env (baseDir env))"

definition tasks_of :: "env \<Rightarrow> state \<Rightarrow> error list \<times> state" where
  "tasks_of env s =
     sync_all env (baseDir env) (glob_files env) (glob_files env)
       (s\<lparr>untouchedEntries := store_keys s\<rparr>)"

text \<open>The state in which the task of an entry starts, \<open>pre\<close> being the entries before it.\<close>

definition state_before :: "env \<Rightarrow> state \<Rightarrow> string list \<Rightarrow> state" where
  "state_before env s pre =
     snd (sync_all env (baseDir env) (glob_files env) pre (s\<lparr>untouchedEntries := store_keys s\<rparr>))"

subsection \<open>A small vault\<close>

text \<open>
  Two notes, \<open>a.md\<close> and \<open>b.md\<close>, under \<open>file:///site/vault/\<close>, and variations of
  it: a candidate that can be neither read nor \<open>stat\<close>ed, a note removed, a configuration
  file the pattern matches, a renderer that throws for \<open>a.md\<close>, a note that fails
  validation, both notes failing it (with either of the two rejections first), an empty
  note. \<open>restart\<close> is a new loader over the store the last run left: \<open>fileToIdMap\<close>
  is created empty by \<open>ObsidianMdLoader\<close>, the store is Astro's and outlives the process.
\<close>

definition vault :: env where
  "vault =
     \<lparr>opts = \<lparr>opt_pattern = None, opt_base = Some ''vault'', opt_i18n = None,
               opt_url = None, opt_author = None\<rparr>,
      collection = ''notes'',
      config_root = ''file:///site/'',
      config_defaultLocale = None,
      watcher = True,
      readFile = (\<lambda>u. if u = ''file:///site/vault/a.md'' then Inr ''alpha''
                      else if u = ''file:///site/vault/b.md'' then Inr ''beta''
                      else Inl ''ENOENT''),
      stat = (\<lambda>u. if u = ''file:///site/vault/a.md'' \<or> u = ''file:///site/vault/b.md''
                  then Inr 1 else Inl ''ENOENT''),
      getEntryInfo = (\<lambda>c u e st ctx. Inr (c, ''title: '' @ e)),
      generateId = (\<lambda>e b d. e),
      generateDigest = (\<lambda>c. ''#'' @ c),
      parseData = (\<lambda>i d p. Inr d),
      render = (\<lambda>i d b p dg. Inr \<lparr>html = b, metadata = None\<rparr>),
      isConfigFile = (\<lambda>e b. False),
      posixRelative = (\<lambda>from to. if prefix from to then drop (length from) to
                            else if prefix ''/site/'' to then ''../'' @ drop 6 to
                            else ''../..'' @ to),
      encodeURI = (\<lambda>e. e),
      newURL = (\<lambda>rel b. b @ rel),
      fileURLToPath = drop 7,
      pathToFileURL = (\<lambda>p. ''file://'' @ p),
      fastGlob = (\<lambda>p cwd. [''a.md'', ''b.md'']),
      isMatch = (\<lambda>e p. suffix ''.md'' e),
      green = (\<lambda>e. e),
      rejects_first = (\<lambda>rs. 0)\<rparr>"

definition fresh :: state where
  "fresh = \<lparr>store = [], untouchedEntries = [], fileToIdMap = [], trace = [], registered = None\<rparr>"

definition restart :: "state \<Rightarrow> state" where
  "restart s = \<lparr>store = store s, untouchedEntries = [], fileToIdMap = [], trace = [],
                 registered = None\<rparr>"

definition stale :: state where
  "stale = fresh\<lparr>store :=
     [(''old.md'',
       \<lparr>entry_id = ''old.md'', data = ''title: old.md'', body = Some ''old'',
        filePath = Some ''vault/old.md'', digest = Some ''#old'', rendered = None,
        assetImports = None, deferredRender = False\<rparr>)]\<rparr>"

definition vault_gone :: env where
  "vault_gone = vault\<lparr>fastGlob := (\<lambda>p cwd. [''a.md'', ''gone.md'', ''b.md''])\<rparr>"

definition vault_b_removed :: env where
  "vault_b_removed =
     vault\<lparr>fastGlob := (\<lambda>p cwd. [''a.md'']),
           readFile := (\<lambda>u. if u = ''file:///site/vault/a.md'' then Inr ''alpha'' else Inl ''ENOENT''),
           stat := (\<lambda>u. if u = ''file:///site/vault/a.md'' then Inr 1 else Inl ''ENOENT'')\<rparr>"

definition vault_cfg :: env where
  "vault_cfg =
     vault\<lparr>opts := \<lparr>opt_pattern = Some (Single ''**/*''), opt_base = Some ''vault'',
                     opt_i18n = None, opt_url = None, opt_author = None\<rparr>,
           fastGlob := (\<lambda>p cwd. [''a.md'', ''config.ts'']),
           isMatch := (\<lambda>e p. True),
           isConfigFile := (\<lambda>e b. e = ''config.ts''),
           readFile := (\<lambda>u. if u = ''file:///site/vault/a.md'' then Inr ''alpha''
                           else if u = ''file:///site/vault/config.ts'' then Inr ''export {}''
                           else Inl ''ENOENT''),
           stat := (\<lambda>u. if u = ''file:///site/vault/a.md'' \<or> u = ''file:///site/vault/config.ts''
                       then Inr 1 else Inl ''ENOENT'')\<rparr>"


definition vault_invalid :: env where
  "vault_invalid =
     vault\<lparr>parseData := (\<lambda>i d p. if i = ''b.md'' then Inl ''title: Required'' else Inr d)\<rparr>"

definition vault_both_invalid :: "nat \<Rightarrow> env" where
  "vault_both_invalid k =
     vault\<lparr>parseData := (\<lambda>i d p. Inl (''invalid '' @ i)), rejects_first := (\<lambda>rs. k)\<rparr>"


section \<open>Lemmas\<close>

subsection \<open>One task\<close>

lemmas sd_defs = syncData_def plan_of_def fileUrl_of_def context_of_def relativePath_of_def
  hit_def store_get_def emit_def store_set_def store_addModuleImport_def Let_def store_writes_def

lemma syncData_store:
  "store (snd (syncData env entry base files s)) =
     (case plan_of env entry base files of
        Sync i dg (Inr r) \<Rightarrow> if hit (store s) i dg then store s else AList.update i r (store s)
      | _ \<Rightarrow> store s)"
  by (simp add: sd_defs split: sum.splits prod.splits option.splits)

lemma syncData_untouched:
  "untouchedEntries (snd (syncData env entry base files s)) =
     (case plan_of env entry base files of
        Sync i dg w \<Rightarrow> removeAll i (untouchedEntries s)
      | _ \<Rightarrow> untouchedEntries s)"
  by (simp add: sd_defs split: sum.splits prod.splits option.splits)

lemma syncData_outcome:
  "fst (syncData env entry base files s) =
     (case plan_of env entry base files of
        Skip \<Rightarrow> Fulfilled
      | Abort x \<Rightarrow> Rejected x
      | Sync i dg w \<Rightarrow>
          if hit (store s) i dg then Fulfilled
          else (case w of Inl x \<Rightarrow> Rejected x | Inr r \<Rightarrow> Fulfilled))"
  by (simp add: sd_defs split: sum.splits prod.splits option.splits)

lemma syncData_writes:
  "store_writes (snd (syncData env entry base files s)) =
     store_writes s @
     (case plan_of env entry base files of
        Sync i dg (Inr r) \<Rightarrow> if hit (store s) i dg then [] else [Store_set r]
      | _ \<Rightarrow> [])"
  by (simp add: sd_defs split: sum.splits prod.splits option.splits)

lemma syncData_registered:
  "registered (snd (syncData env entry base files s)) = registered s"
  by (simp add: sd_defs split: sum.splits prod.splits option.splits)

lemma derived_id_plan:
  "derived_id env e b fs = (case plan_of env e b fs of Sync i dg w \<Rightarrow> Some i | _ \<Rightarrow> None)"
  by (simp add: derived_id_def plan_of_def fileUrl_of_def Let_def split: sum.splits prod.splits)

lemma plan_Sync_Inr:
  "plan_of env e b fs = Sync i dg (Inr r) \<Longrightarrow>
     entry_id r = i \<and> digest r = Some dg \<and> filePath r = Some (relativePath_of env e b)"
  by (auto simp add: plan_of_def Let_def split: sum.splits prod.splits)

lemma sync_all_Cons_config:
  "isConfigFile env e b \<Longrightarrow> sync_all env b fs (e # es) s = sync_all env b fs es s"
  by simp

lemma sync_all_Cons_snd:
  "\<not> isConfigFile env e b \<Longrightarrow>
     snd (sync_all env b fs (e # es) s) = snd (sync_all env b fs es (snd (syncData env e b fs s)))"
  by (simp add: case_prod_beta)

lemma sync_all_Cons_fst:
  "\<not> isConfigFile env e b \<Longrightarrow>
     fst (sync_all env b fs (e # es) s) =
       rejection (fst (syncData env e b fs s)) @
         fst (sync_all env b fs es (snd (syncData env e b fs s)))"
  by (simp add: case_prod_beta)

lemma derived_ids_Cons:
  "derived_ids env b fs (e # es) =
     (if isConfigFile env e b then derived_ids env b fs es
      else (case derived_id env e b fs of
              None \<Rightarrow> derived_ids env b fs es
            | Some i \<Rightarrow> i # derived_ids env b fs es))"
  by (simp add: derived_ids_def split: option.splits)

lemma derived_ids_Nil: "derived_ids env b fs [] = []"
  by (simp add: derived_ids_def)

lemma set_derived_ids:
  "set (derived_ids env b fs es) =
     {i. \<exists>e\<in>set es. \<not> isConfigFile env e b \<and> derived_id env e b fs = Some i}"
  by (induction es) (auto simp add: derived_ids_Cons derived_ids_Nil split: option.splits if_splits)

lemma sync_all_untouched:
  "set (untouchedEntries (snd (sync_all env b fs es s))) =
     set (untouchedEntries s) - set (derived_ids env b fs es)"
proof (induction es arbitrary: s)
  case Nil
  show ?case by (simp add: derived_ids_Nil)
next
  case (Cons e es)
  show ?case
  proof (cases "isConfigFile env e b")
    case True
    then show ?thesis using Cons.IH [of s] by (simp add: derived_ids_Cons)
  next
    case False
    then show ?thesis
      using Cons.IH [of "snd (syncData env e b fs s)"]
      by (auto simp add: sync_all_Cons_snd derived_ids_Cons syncData_untouched derived_id_plan
            simp del: sync_all.simps split: plan.splits)
  qed
qed

lemma sync_all_registered:
  "registered (snd (sync_all env b fs es s)) = registered s"
proof (induction es arbitrary: s)
  case Nil
  show ?case by simp
next
  case (Cons e es)
  show ?case
    by (cases "isConfigFile env e b")
       (simp_all add: Cons.IH sync_all_Cons_snd syncData_registered del: sync_all.simps,
        simp add: Cons.IH)
qed

lemma sync_all_keys:
  "fst ` set (store (snd (sync_all env b fs es s))) \<subseteq>
     fst ` set (store s) \<union> set (derived_ids env b fs es)"
proof (induction es arbitrary: s)
  case Nil
  show ?case by simp
next
  case (Cons e es)
  show ?case
  proof (cases "isConfigFile env e b")
    case True
    then show ?thesis using Cons.IH [of s] by (simp add: derived_ids_Cons)
  next
    case False
    have step: "fst ` set (store (snd (syncData env e b fs s))) \<subseteq>
                  fst ` set (store s) \<union> (case derived_id env e b fs of None \<Rightarrow> {} | Some i \<Rightarrow> {i})"
      by (auto simp add: syncData_store derived_id_plan AList.dom_update
            split: plan.splits sum.splits if_splits)
    show ?thesis
      using False Cons.IH [of "snd (syncData env e b fs s)"] step
      by (auto simp add: sync_all_Cons_snd derived_ids_Cons simp del: sync_all.simps
            split: option.splits)
  qed
qed

lemma fold_store_delete_map_of:
  "map_of (store (fold store_delete U s)) i = (if i \<in> set U then None else map_of (store s) i)"
  by (induction U arbitrary: s)
     (auto simp add: store_delete_def emit_def AList.delete_conv')

lemma fold_store_delete_keys:
  "fst ` set (store (fold store_delete U s)) = fst ` set (store s) - set U"
proof -
  have "dom (map_of (store (fold store_delete U s))) = dom (map_of (store s)) - set U"
    by (auto simp add: fold_store_delete_map_of dom_def)
  then show ?thesis by (simp add: dom_map_of_conv_image_fst)
qed

lemma fold_store_delete_writes:
  "store_writes (fold store_delete U s) = store_writes s @ map Store_delete U"
  by (induction U arbitrary: s) (simp_all add: store_delete_def emit_def store_writes_def)

lemma fold_store_delete_trace:
  "trace (fold store_delete U s) = trace s @ map Store_delete U"
  by (induction U arbitrary: s) (simp_all add: store_delete_def emit_def)

lemma syncData_Fulfilled_iff:
  "fst (syncData env e b fs s) = Fulfilled \<longleftrightarrow> \<not> rejecting (store s) (plan_of env e b fs)"
  by (simp add: syncData_outcome split: plan.splits sum.splits)

lemma rejection_Nil_iff: "rejection r = [] \<longleftrightarrow> r = Fulfilled"
  by (cases r) simp_all

lemma promise_all_Fulfilled_iff: "promise_all env rs = Fulfilled \<longleftrightarrow> rs = []"
  by (simp add: promise_all_def)

lemma promise_all_Rejected:
  "rs \<noteq> [] \<Longrightarrow> promise_all env rs = Rejected (rs ! (rejects_first env rs mod length rs))"
  by (simp add: promise_all_def)

lemma promise_all_member:
  assumes "promise_all env rs = Rejected x"
  shows "x \<in> set rs"
proof -
  from assms have ne: "rs \<noteq> []" by (auto simp add: promise_all_def)
  then have "rejects_first env rs mod length rs < length rs" by simp
  then have "rs ! (rejects_first env rs mod length rs) \<in> set rs" by (rule nth_mem)
  with assms ne show ?thesis by (simp add: promise_all_def)
qed

lemma hit_cong: "map_of st i = map_of st' i \<Longrightarrow> hit st i dg = hit st' i dg"
  by (simp add: hit_def)

lemma syncData_frame:
  assumes "\<forall>dg r. plan_of env e b fs \<noteq> Sync i dg (Inr r)"
  shows "map_of (store (snd (syncData env e b fs s))) i = map_of (store s) i"
  using assms
  by (auto simp add: syncData_store AList.update_conv' split: plan.splits sum.splits)

lemma distinct_idsD:
  assumes "distinct_ids env b fs" and "e \<in> set fs" and "e' \<in> set fs"
      and "\<not> isConfigFile env e b" and "\<not> isConfigFile env e' b"
      and "derived_id env e b fs = Some i" and "derived_id env e' b fs = Some i"
  shows "e = e'"
proof -
  from assms(1,2,3) have
    "\<not> isConfigFile env e b \<longrightarrow> \<not> isConfigFile env e' b \<longrightarrow>
       derived_id env e b fs \<noteq> None \<longrightarrow>
       derived_id env e b fs = derived_id env e' b fs \<longrightarrow> e = e'"
    unfolding distinct_ids_def by blast
  with assms(4-7) show ?thesis by simp
qed

lemma other_entry_other_id:
  assumes "distinct_ids env b fs" and "e \<in> set fs" and "e' \<in> set fs"
      and "\<not> isConfigFile env e b" and "\<not> isConfigFile env e' b"
      and "plan_of env e b fs = Sync i dg w" and "e \<noteq> e'"
  shows "plan_of env e' b fs \<noteq> Sync i dg' w'"
proof
  assume "plan_of env e' b fs = Sync i dg' w'"
  with assms(6) have "derived_id env e b fs = Some i" "derived_id env e' b fs = Some i"
    by (simp_all add: derived_id_plan)
  with assms(1-5) have "e = e'" by (rule distinct_idsD)
  with assms(7) show False by simp
qed

lemma failing_entry_frame:
  assumes "distinct_ids env b fs" and "e \<in> set fs" and "e' \<in> set fs"
      and "\<not> isConfigFile env e b" and "\<not> isConfigFile env e' b"
      and "plan_of env e b fs = Sync i dg (Inl x)"
  shows "map_of (store (snd (syncData env e' b fs s))) i = map_of (store s) i"
proof (rule syncData_frame, intro allI)
  fix dg' r
  show "plan_of env e' b fs \<noteq> Sync i dg' (Inr r)"
  proof (cases "e = e'")
    case True
    with assms(6) show ?thesis by simp
  next
    case False
    with assms show ?thesis by (rule other_entry_other_id)
  qed
qed

lemma sync_all_failing_frame:
  assumes "distinct_ids env b fs" and "e \<in> set fs" and "\<not> isConfigFile env e b"
      and "plan_of env e b fs = Sync i dg (Inl x)" and "set es \<subseteq> set fs"
  shows "map_of (store (snd (sync_all env b fs es s))) i = map_of (store s) i"
  using assms(5)
proof (induction es arbitrary: s)
  case Nil
  show ?case by simp
next
  case (Cons e' es)
  then have sub: "set es \<subseteq> set fs" and mem: "e' \<in> set fs" by simp_all
  show ?case
  proof (cases "isConfigFile env e' b")
    case True
    then show ?thesis using Cons.IH [OF sub, of s] by simp
  next
    case False
    have "map_of (store (snd (sync_all env b fs (e' # es) s))) i =
            map_of (store (snd (syncData env e' b fs s))) i"
      using False Cons.IH [OF sub, of "snd (syncData env e' b fs s)"]
      by (simp add: sync_all_Cons_snd del: sync_all.simps)
    also have "\<dots> = map_of (store s) i"
      using assms(1,2) mem assms(3) False assms(4) by (rule failing_entry_frame)
    finally show ?thesis .
  qed
qed

lemma sync_all_rejects_iff:
  assumes "distinct_ids env b fs" and "set es \<subseteq> set fs"
  shows "fst (sync_all env b fs es s) \<noteq> [] \<longleftrightarrow>
           (\<exists>e\<in>set es. \<not> isConfigFile env e b \<and> rejecting (store s) (plan_of env e b fs))"
  using assms(2)
proof (induction es arbitrary: s)
  case Nil
  show ?case by simp
next
  case (Cons e es)
  then have sub: "set es \<subseteq> set fs" and mem: "e \<in> set fs" by simp_all
  show ?case
  proof (cases "isConfigFile env e b")
    case True
    then show ?thesis using Cons.IH [OF sub, of s] by auto
  next
    case False
    let ?s1 = "snd (syncData env e b fs s)"
    have same: "rejecting (store ?s1) (plan_of env e' b fs) = rejecting (store s) (plan_of env e' b fs)"
      if "e' \<in> set es" and "\<not> isConfigFile env e' b" for e'
    proof (cases "plan_of env e' b fs")
      case (Sync i dg w)
      show ?thesis
      proof (cases w)
        case (Inl x)
        have "e' \<in> set fs" using that(1) sub by auto
        moreover have pl: "plan_of env e' b fs = Sync i dg (Inl x)"
          using Sync Inl by simp
        ultimately have "map_of (store ?s1) i = map_of (store s) i"
          using assms(1) mem that(2) False
          by (intro failing_entry_frame [where e = e' and e' = e and dg = dg and x = x])
        then have "hit (store ?s1) i dg = hit (store s) i dg" by (rule hit_cong)
        then show ?thesis unfolding pl by simp
      next
        case (Inr r)
        then show ?thesis using Sync by simp
      qed
    qed simp_all
    have "fst (sync_all env b fs (e # es) s) \<noteq> [] \<longleftrightarrow>
            rejecting (store s) (plan_of env e b fs) \<or> fst (sync_all env b fs es ?s1) \<noteq> []"
      using False
      by (simp add: sync_all_Cons_fst rejection_Nil_iff syncData_Fulfilled_iff
            del: sync_all.simps)
    also have "\<dots> \<longleftrightarrow> rejecting (store s) (plan_of env e b fs) \<or>
        (\<exists>e'\<in>set es. \<not> isConfigFile env e' b \<and> rejecting (store ?s1) (plan_of env e' b fs))"
      using Cons.IH [OF sub, of ?s1] by simp
    also have "\<dots> \<longleftrightarrow> rejecting (store s) (plan_of env e b fs) \<or>
        (\<exists>e'\<in>set es. \<not> isConfigFile env e' b \<and> rejecting (store s) (plan_of env e' b fs))"
      using same by blast
    finally show ?thesis using False by auto
  qed
qed

lemma hit_after_own_sync:
  assumes "plan_of env e b fs = Sync i dg (Inr r)" and "relativePath_of env e b \<noteq> []"
  shows "hit (store (snd (syncData env e b fs s))) i dg"
  using assms plan_Sync_Inr [OF assms(1)]
  by (simp add: syncData_store) (simp add: hit_def AList.update_conv')

lemma sync_all_hits:
  assumes "distinct_ids env b fs" and "paths_known env b fs" and "set es \<subseteq> set fs"
      and "e \<in> set fs" and "\<not> isConfigFile env e b"
      and "plan_of env e b fs = Sync i dg (Inr r)"
      and "e \<in> set es \<or> hit (store s) i dg"
  shows "hit (store (snd (sync_all env b fs es s))) i dg"
  using assms(3,7)
proof (induction es arbitrary: s)
  case Nil
  then show ?case by simp
next
  case (Cons e' es)
  then have sub: "set es \<subseteq> set fs" and mem: "e' \<in> set fs" by simp_all
  show ?case
  proof (cases "isConfigFile env e' b")
    case True
    with assms(5) have "e \<noteq> e'" by auto
    with Cons.prems have "e \<in> set es \<or> hit (store s) i dg" by auto
    then show ?thesis using True Cons.IH [OF sub, of s] by simp
  next
    case False
    let ?s1 = "snd (syncData env e' b fs s)"
    have "e \<in> set es \<or> hit (store ?s1) i dg"
    proof (cases "e = e'")
      case True
      have "relativePath_of env e b \<noteq> []"
        using assms(2,4) by (simp add: paths_known_def)
      with assms(6) have "hit (store (snd (syncData env e b fs s))) i dg"
        by (rule hit_after_own_sync)
      then show ?thesis using True by simp
    next
      case ne: False
      show ?thesis
      proof (cases "e \<in> set es")
        case True
        then show ?thesis by simp
      next
        case False
        with ne Cons.prems have h: "hit (store s) i dg" by auto
        have "\<forall>dg' r'. plan_of env e' b fs \<noteq> Sync i dg' (Inr r')"
          using other_entry_other_id [OF assms(1,4) mem assms(5) \<open>\<not> isConfigFile env e' b\<close> assms(6) ne]
          by blast
        then have "map_of (store ?s1) i = map_of (store s) i" by (rule syncData_frame)
        then have "hit (store ?s1) i dg = hit (store s) i dg" by (rule hit_cong)
        with h show ?thesis by simp
      qed
    qed
    then show ?thesis
      using False Cons.IH [OF sub, of ?s1] by (simp add: sync_all_Cons_snd del: sync_all.simps)
  qed
qed

lemma sync_all_quiet:
  assumes "\<forall>e\<in>set es. \<not> isConfigFile env e b \<longrightarrow>
             (\<forall>i dg r. plan_of env e b fs = Sync i dg (Inr r) \<longrightarrow> hit (store s) i dg)"
  shows "store (snd (sync_all env b fs es s)) = store s \<and>
         store_writes (snd (sync_all env b fs es s)) = store_writes s"
  using assms
proof (induction es arbitrary: s)
  case Nil
  show ?case by simp
next
  case (Cons e es)
  show ?case
  proof (cases "isConfigFile env e b")
    case True
    then show ?thesis using Cons.IH [of s] Cons.prems by simp
  next
    case False
    let ?s1 = "snd (syncData env e b fs s)"
    have st: "store ?s1 = store s" and wr: "store_writes ?s1 = store_writes s"
      using False Cons.prems
      by (auto simp add: syncData_store syncData_writes split: plan.splits sum.splits)
    have "store (snd (sync_all env b fs es ?s1)) = store ?s1 \<and>
          store_writes (snd (sync_all env b fs es ?s1)) = store_writes ?s1"
      using Cons.prems st by (intro Cons.IH) simp
    then show ?thesis
      using False st wr by (simp add: sync_all_Cons_snd del: sync_all.simps)
  qed
qed

subsection \<open>The full pass\<close>

lemma load_fst: "fst (load env s) = promise_all env (fst (tasks_of env s))"
  by (simp add: load_def tasks_of_def glob_files_def Let_def case_prod_beta split: outcome.splits)

lemma load_Fulfilled_iff: "fst (load env s) = Fulfilled \<longleftrightarrow> fst (tasks_of env s) = []"
  by (simp add: load_fst promise_all_Fulfilled_iff)

lemma load_rejected:
  "fst (tasks_of env s) \<noteq> [] \<Longrightarrow> snd (load env s) = snd (tasks_of env s)"
  by (simp add: load_def tasks_of_def glob_files_def Let_def case_prod_beta promise_all_def)

lemma load_fulfilled:
  "fst (tasks_of env s) = [] \<Longrightarrow>
     snd (load env s) =
       (let s2 = fold store_delete (untouchedEntries (snd (tasks_of env s))) (snd (tasks_of env s))
        in if watcher env
           then s2\<lparr>registered := Some (glob_files env, fileURLToPath env (baseDir env))\<rparr>
           else s2)"
  by (simp add: load_def tasks_of_def glob_files_def Let_def case_prod_beta promise_all_def)

lemma load_fulfilled_store:
  "fst (tasks_of env s) = [] \<Longrightarrow>
     store (snd (load env s)) =
       store (fold store_delete (untouchedEntries (snd (tasks_of env s))) (snd (tasks_of env s)))"
  by (simp add: load_fulfilled Let_def)

lemma load_fulfilled_trace:
  "fst (tasks_of env s) = [] \<Longrightarrow>
     trace (snd (load env s)) =
       trace (fold store_delete (untouchedEntries (snd (tasks_of env s))) (snd (tasks_of env s)))"
  by (simp add: load_fulfilled Let_def)

lemma tasks_of_untouched:
  "set (untouchedEntries (snd (tasks_of env s))) =
     set (store_keys s) - set (derived_ids env (baseDir env) (glob_files env) (glob_files env))"
  by (simp add: tasks_of_def sync_all_untouched)

lemma tasks_of_store_start:
  "store (s\<lparr>untouchedEntries := u\<rparr>) = store s"
  "store_writes (s\<lparr>untouchedEntries := u\<rparr>) = store_writes s"
  by (simp_all add: store_writes_def)

lemma derived_ids_member:
  assumes "e \<in> set es" and "\<not> isConfigFile env e b" and "plan_of env e b fs = Sync i dg w"
  shows "i \<in> set (derived_ids env b fs es)"
  using assms by (auto simp add: set_derived_ids derived_id_plan)

lemma load_keeps_hits:
  assumes d: "distinct_ids env (baseDir env) (glob_files env)"
      and k: "paths_known env (baseDir env) (glob_files env)"
      and e: "e \<in> set (glob_files env)" "\<not> isConfigFile env e (baseDir env)"
      and p: "plan_of env e (baseDir env) (glob_files env) = Sync i dg (Inr r)"
  shows "hit (store (snd (load env s))) i dg"
proof -
  let ?t = "tasks_of env s"
  have h: "hit (store (snd ?t)) i dg"
    unfolding tasks_of_def
    using d k subset_refl e p by (rule sync_all_hits) (simp add: e(1))
  show ?thesis
  proof (cases "fst ?t = []")
    case True
    have "i \<in> set (derived_ids env (baseDir env) (glob_files env) (glob_files env))"
      using e p by (rule derived_ids_member)
    then have "i \<notin> set (untouchedEntries (snd ?t))"
      by (simp add: tasks_of_untouched)
    then have "map_of (store (snd (load env s))) i = map_of (store (snd ?t)) i"
      by (simp add: load_fulfilled_store [OF True] fold_store_delete_map_of)
    then have "hit (store (snd (load env s))) i dg = hit (store (snd ?t)) i dg"
      by (rule hit_cong)
    with h show ?thesis by simp
  next
    case False
    then show ?thesis using h by (simp add: load_rejected)
  qed
qed

lemma tasks_of_rejects_iff:
  assumes "distinct_ids env (baseDir env) (glob_files env)"
  shows "fst (tasks_of env s) \<noteq> [] \<longleftrightarrow>
           (\<exists>e\<in>set (glob_files env). \<not> isConfigFile env e (baseDir env) \<and>
              rejecting (store s) (plan_of env e (baseDir env) (glob_files env)))"
  unfolding tasks_of_def
  using sync_all_rejects_iff [OF assms subset_refl, of "s\<lparr>untouchedEntries := store_keys s\<rparr>"]
  by simp

lemma rejected_pass_rejects_again:
  assumes d: "distinct_ids env (baseDir env) (glob_files env)"
      and r: "fst (tasks_of env s) \<noteq> []"
  shows "fst (tasks_of env (snd (load env s))) \<noteq> []"
proof -
  let ?b = "baseDir env" and ?fs = "glob_files env"
  from r have s1: "snd (load env s) = snd (tasks_of env s)" by (rule load_rejected)
  from r obtain e where e: "e \<in> set ?fs" "\<not> isConfigFile env e ?b"
      and rj: "rejecting (store s) (plan_of env e ?b ?fs)"
    using tasks_of_rejects_iff [OF d, of s] by blast
  have "rejecting (store (snd (load env s))) (plan_of env e ?b ?fs)"
  proof (cases "plan_of env e ?b ?fs")
    case Skip
    with rj show ?thesis by simp
  next
    case (Abort y)
    then show ?thesis by simp
  next
    case (Sync i dg w)
    show ?thesis
    proof (cases w)
      case (Inl y)
      have pl: "plan_of env e ?b ?fs = Sync i dg (Inl y)" using Sync Inl by simp
      have "map_of (store (snd (tasks_of env s))) i =
              map_of (store (s\<lparr>untouchedEntries := store_keys s\<rparr>)) i"
        unfolding tasks_of_def using d e pl subset_refl by (rule sync_all_failing_frame)
      then have "map_of (store (snd (load env s))) i = map_of (store s) i"
        by (simp add: s1)
      then have "hit (store (snd (load env s))) i dg = hit (store s) i dg" by (rule hit_cong)
      moreover have "\<not> hit (store s) i dg" using rj unfolding pl by simp
      ultimately show ?thesis unfolding pl by simp
    next
      case (Inr r')
      with rj Sync show ?thesis by simp
    qed
  qed
  with e show ?thesis using tasks_of_rejects_iff [OF d, of "snd (load env s)"] by blast
qed

lemma fulfilled_pass_keys:
  assumes "fst (tasks_of env s) = []"
  shows "set (store_keys (snd (load env s))) \<subseteq>
           set (derived_ids env (baseDir env) (glob_files env) (glob_files env))"
proof -
  let ?t = "snd (tasks_of env s)"
  have "fst ` set (store ?t) \<subseteq>
          fst ` set (store s) \<union> set (derived_ids env (baseDir env) (glob_files env) (glob_files env))"
    unfolding tasks_of_def
    using sync_all_keys [of env "baseDir env" "glob_files env" "glob_files env"
                           "s\<lparr>untouchedEntries := store_keys s\<rparr>"]
    by simp
  moreover have "set (untouchedEntries ?t) =
      fst ` set (store s) - set (derived_ids env (baseDir env) (glob_files env) (glob_files env))"
    by (simp add: tasks_of_untouched store_keys_def)
  ultimately show ?thesis
    unfolding store_keys_def load_fulfilled_store [OF assms]
    by (auto simp add: fold_store_delete_keys)
qed

lemma second_pass_writes_nothing:
  assumes d: "distinct_ids env (baseDir env) (glob_files env)"
      and k: "paths_known env (baseDir env) (glob_files env)"
  shows "store (snd (load env (snd (load env s)))) = store (snd (load env s)) \<and>
         store_writes (snd (load env (snd (load env s)))) = store_writes (snd (load env s))"
proof -
  let ?b = "baseDir env" and ?fs = "glob_files env"
  let ?s1 = "snd (load env s)"
  let ?t2 = "tasks_of env ?s1"
  have "\<forall>e\<in>set ?fs. \<not> isConfigFile env e ?b \<longrightarrow>
          (\<forall>i dg r. plan_of env e ?b ?fs = Sync i dg (Inr r) \<longrightarrow>
             hit (store (?s1\<lparr>untouchedEntries := store_keys ?s1\<rparr>)) i dg)"
    using load_keeps_hits [OF d k] by simp
  then have q: "store (snd ?t2) = store ?s1 \<and> store_writes (snd ?t2) = store_writes ?s1"
    unfolding tasks_of_def
    using sync_all_quiet [of ?fs env ?b ?fs "?s1\<lparr>untouchedEntries := store_keys ?s1\<rparr>"]
    by (simp add: tasks_of_store_start)
  show ?thesis
  proof (cases "fst ?t2 = []")
    case False
    then show ?thesis using q by (simp add: load_rejected)
  next
    case True
    have "fst (tasks_of env s) = []"
      using rejected_pass_rejects_again [OF d, of s] True by blast
    then have "set (store_keys ?s1) \<subseteq> set (derived_ids env ?b ?fs ?fs)"
      by (rule fulfilled_pass_keys)
    then have "set (untouchedEntries (snd ?t2)) = {}"
      by (auto simp add: tasks_of_untouched)
    then have "untouchedEntries (snd ?t2) = []" by simp
    then show ?thesis
      using q by (simp add: load_fulfilled [OF True] Let_def store_writes_def)
  qed
qed

lemma sync_all_append:
  "sync_all env b fs (xs @ ys) s =
     (fst (sync_all env b fs xs s) @ fst (sync_all env b fs ys (snd (sync_all env b fs xs s))),
      snd (sync_all env b fs ys (snd (sync_all env b fs xs s))))"
  by (induction xs arbitrary: s) (simp_all add: case_prod_beta)

subsection \<open>The paths through \<open>syncData\<close> after a failed read, and \<open>unlink\<close>\<close>

lemma syncData_read_fail_stat_fail:
  assumes "readFile env (fileUrl_of env entry base) = Inl m"
      and "stat env (fileUrl_of env entry base) = Inl m'"
  shows "syncData env entry base files s =
           (Rejected (StatError m'),
            emit (Logger_error (''Error reading '' @ entry @ '': '' @ m)) s)"
  using assms by (simp add: syncData_def fileUrl_of_def)

lemma syncData_read_fail_stat_ok:
  assumes "readFile env (fileUrl_of env entry base) = Inl m"
      and "stat env (fileUrl_of env entry base) = Inr st"
  shows "syncData env entry base files s =
           (Fulfilled,
            emit (Logger_warn (''No contents found for '' @ entry))
              (emit (Logger_error (''Error reading '' @ entry @ '': '' @ m)) s))"
  using assms by (simp add: syncData_def fileUrl_of_def)

lemma onUnlink_mapped:
  assumes "matchesGlob env (posixRelative env basePath p)"
      and "map_of (fileToIdMap s) p = Some i" and "i \<noteq> []"
  shows "onUnlink env basePath p s =
           (Fulfilled,
            (store_delete i s)\<lparr>fileToIdMap := AList.delete p (fileToIdMap s)\<rparr>)"
  using assms by (simp add: onUnlink_def store_delete_def emit_def)

lemma onUnlink_unmapped:
  assumes "map_of (fileToIdMap s) p = None"
  shows "onUnlink env basePath p s = (Fulfilled, s)"
  using assms by (simp add: onUnlink_def)


subsection \<open>The record of a candidate after the pass\<close>





section \<open>The claims\<close>

text \<open>
  Claim C1, at a candidate that can be neither read nor \<open>stat\<close>ed (\<open>gone.md\<close>: removed
  after the glob listed it, or a dangling link). The failed read is logged, but \<open>stat\<close>
  is awaited before the check of \<open>contents\<close> and throws: the task rejects instead of
  returning, the promise of \<open>load\<close> rejects with it, the stale record \<open>old.md\<close> is
  not deleted and no watch handler is registered.
\<close>

theorem unreadable_entry_rejects_the_pass:
  "fst (syncData vault_gone ''gone.md'' ''file:///site/vault/'' [''a.md'', ''gone.md'', ''b.md''] stale) =
     Rejected (StatError ''ENOENT'') \<and>
   trace (snd (syncData vault_gone ''gone.md'' ''file:///site/vault/'' [''a.md'', ''gone.md'', ''b.md''] stale)) =
     [Logger_error ''Error reading gone.md: ENOENT''] \<and>
   fst (load vault_gone stale) = Rejected (StatError ''ENOENT'') \<and>
   store_keys (snd (load vault_gone stale)) = [''old.md'', ''a.md'', ''b.md''] \<and>
   registered (snd (load vault_gone stale)) = None"
  by code_simp

text \<open>
  Claim C2. An entry whose identifier the store already holds with the digest of the
  contents just read and a known file path takes the fast path: the task calls neither
  \<open>parseData\<close> nor the renderer and writes nothing (it only tells the store of the module
  import when the record is a deferred render). So a second full pass over an unchanged
  vault neither sets nor deletes a record, given that distinct candidates have distinct
  identifiers and that the path stored with a record is not empty.
\<close>

theorem unchanged_entries_are_left_alone:
  "(readFile env (fileUrl_of env entry base) = Inr c \<longrightarrow>
    stat env (fileUrl_of env entry base) = Inr st \<longrightarrow>
    getEntryInfo env c (fileUrl_of env entry base) entry st (context_of env files) = Inr (b, d) \<longrightarrow>
    store_get s (generateId env entry base d) = Some r \<longrightarrow>
    digest r = Some (generateDigest env c) \<longrightarrow>
    truthy (filePath r) \<longrightarrow>
      fst (syncData env entry base files s) = Fulfilled \<and>
      store (snd (syncData env entry base files s)) = store s \<and>
      fileToIdMap (snd (syncData env entry base files s)) = fileToIdMap s \<and>
      trace (snd (syncData env entry base files s)) =
        trace s @ Call_getEntryInfo c entry files #
          (if deferredRender r
           then [Store_addModuleImport (case filePath r of Some p \<Rightarrow> p | None \<Rightarrow> [])]
           else [])) \<and>
   (distinct_ids env (baseDir env) (glob_files env) \<longrightarrow>
    paths_known env (baseDir env) (glob_files env) \<longrightarrow>
      store (snd (load env (snd (load env s0)))) = store (snd (load env s0)) \<and>
      store_writes (snd (load env (snd (load env s0)))) = store_writes (snd (load env s0)))"
proof (intro conjI impI)
  assume "distinct_ids env (baseDir env) (glob_files env)"
     and "paths_known env (baseDir env) (glob_files env)"
  then show "store (snd (load env (snd (load env s0)))) = store (snd (load env s0))"
    and "store_writes (snd (load env (snd (load env s0)))) = store_writes (snd (load env s0))"
    using second_pass_writes_nothing [of env s0] by simp_all
next
  assume a: "readFile env (fileUrl_of env entry base) = Inr c"
    "stat env (fileUrl_of env entry base) = Inr st"
    "getEntryInfo env c (fileUrl_of env entry base) entry st (context_of env files) = Inr (b, d)"
    "store_get s (generateId env entry base d) = Some r"
    "digest r = Some (generateDigest env c)"
    "truthy (filePath r)"
  then show "fst (syncData env entry base files s) = Fulfilled"
    and "store (snd (syncData env entry base files s)) = store s"
    and "fileToIdMap (snd (syncData env entry base files s)) = fileToIdMap s"
    and "trace (snd (syncData env entry base files s)) =
        trace s @ Call_getEntryInfo c entry files #
          (if deferredRender r
           then [Store_addModuleImport (case filePath r of Some p \<Rightarrow> p | None \<Rightarrow> [])]
           else [])"
    by (simp_all add: syncData_def fileUrl_of_def context_of_def store_get_def emit_def
          store_addModuleImport_def Let_def)
qed

theorem unchanged_entries_are_left_alone_witness:
  "readFile vault (fileUrl_of vault ''a.md'' ''file:///site/vault/'') = Inr ''alpha'' \<and>
   stat vault (fileUrl_of vault ''a.md'' ''file:///site/vault/'') = Inr 1 \<and>
   getEntryInfo vault ''alpha'' (fileUrl_of vault ''a.md'' ''file:///site/vault/'') ''a.md'' 1
     (context_of vault [''a.md'', ''b.md'']) = Inr (''alpha'', ''title: a.md'') \<and>
   (\<exists>r. store_get (snd (load vault fresh)) ''a.md'' = Some r \<and>
        digest r = Some (generateDigest vault ''alpha'') \<and> truthy (filePath r)) \<and>
   distinct_ids vault (baseDir vault) (glob_files vault) \<and>
   paths_known vault (baseDir vault) (glob_files vault) \<and>
   store (snd (syncData vault ''a.md'' ''file:///site/vault/'' [''a.md'', ''b.md'']
                 (snd (load vault fresh)))) = store (snd (load vault fresh)) \<and>
   store (snd (load vault (snd (load vault fresh)))) = store (snd (load vault fresh)) \<and>
   store_writes (snd (load vault (snd (load vault fresh)))) = store_writes (snd (load vault fresh))"
proof -
  let ?r = "\<lparr>entry_id = ''a.md'', data = ''title: a.md'', body = Some ''alpha'',
             filePath = Some ''vault/a.md'', digest = Some ''#alpha'',
             rendered = Some \<lparr>html = ''alpha'', metadata = None\<rparr>,
             assetImports = None, deferredRender = False\<rparr>"
  have h1: "readFile vault (fileUrl_of vault ''a.md'' ''file:///site/vault/'') = Inr ''alpha''"
    by code_simp
  have h2: "stat vault (fileUrl_of vault ''a.md'' ''file:///site/vault/'') = Inr 1"
    by code_simp
  have h3: "getEntryInfo vault ''alpha'' (fileUrl_of vault ''a.md'' ''file:///site/vault/'') ''a.md'' 1
              (context_of vault [''a.md'', ''b.md'']) = Inr (''alpha'', ''title: a.md'')"
    by code_simp
  have h4: "store_get (snd (load vault fresh)) (generateId vault ''a.md'' ''file:///site/vault/'' ''title: a.md'') = Some ?r"
    by code_simp
  have h5: "digest ?r = Some (generateDigest vault ''alpha'')"
    by code_simp
  have h6: "truthy (filePath ?r)"
    by simp
  have h7: "distinct_ids vault (baseDir vault) (glob_files vault)"
    by code_simp
  have h8: "paths_known vault (baseDir vault) (glob_files vault)"
    by code_simp
  have i: "generateId vault ''a.md'' ''file:///site/vault/'' ''title: a.md'' = ''a.md''"
    by code_simp
  note t = unchanged_entries_are_left_alone
    [of vault "''a.md''" "''file:///site/vault/''" "''alpha''" 1 "[''a.md'', ''b.md'']"
        "''alpha''" "''title: a.md''" "snd (load vault fresh)" ?r fresh]
  from t h1 h2 h3 h4 h5 h6 have
    "store (snd (syncData vault ''a.md'' ''file:///site/vault/'' [''a.md'', ''b.md'']
                   (snd (load vault fresh)))) = store (snd (load vault fresh))"
    by blast
  moreover from t h7 h8 have
    "store (snd (load vault (snd (load vault fresh)))) = store (snd (load vault fresh)) \<and>
     store_writes (snd (load vault (snd (load vault fresh)))) = store_writes (snd (load vault fresh))"
    by blast
  moreover have "\<exists>r. store_get (snd (load vault fresh)) ''a.md'' = Some r \<and>
        digest r = Some (generateDigest vault ''alpha'') \<and> truthy (filePath r)"
    using h4 h5 h6 unfolding i by blast
  ultimately show ?thesis using h1 h2 h3 h7 h8 by blast
qed

text \<open>
  Claim C3. When a full pass completes, an identifier that the store held when the pass
  began and that no candidate entry of the pass derived again is gone from the store, by
  a \<open>store.delete\<close> of the pass.
\<close>

theorem stale_identifiers_deleted:
  assumes "load env s = (Fulfilled, s')"
      and "i \<in> set (store_keys s)"
      and "i \<notin> set (derived_ids env (baseDir env) (glob_files env) (glob_files env))"
  shows "store_get s' i = None \<and> Store_delete i \<in> set (trace s')"
proof -
  let ?t = "snd (tasks_of env s)"
  from assms(1) have ok: "fst (tasks_of env s) = []"
    using load_Fulfilled_iff [of env s] by simp
  from assms(1) have s': "s' = snd (load env s)" by simp
  have mem: "i \<in> set (untouchedEntries ?t)"
    using assms(2,3) by (simp add: tasks_of_untouched)
  have "map_of (store s') i = None"
    unfolding s' load_fulfilled_store [OF ok] using mem by (simp add: fold_store_delete_map_of)
  moreover have "Store_delete i \<in> set (trace s')"
    unfolding s' load_fulfilled_trace [OF ok] using mem by (simp add: fold_store_delete_trace)
  ultimately show ?thesis by (simp add: store_get_def)
qed

text \<open>
  The vault is synced, \<open>b.md\<close> is removed from disk, and the next full pass deletes the
  record of \<open>b.md\<close>.
\<close>

theorem stale_identifiers_deleted_witness:
  "load vault_b_removed (snd (load vault fresh)) =
     (Fulfilled, snd (load vault_b_removed (snd (load vault fresh)))) \<and>
   ''b.md'' \<in> set (store_keys (snd (load vault fresh))) \<and>
   ''b.md'' \<notin> set (derived_ids vault_b_removed (baseDir vault_b_removed)
                      (glob_files vault_b_removed) (glob_files vault_b_removed)) \<and>
   store_get (snd (load vault_b_removed (snd (load vault fresh)))) ''b.md'' = None \<and>
   Store_delete ''b.md'' \<in> set (trace (snd (load vault_b_removed (snd (load vault fresh)))))"
proof -
  have h1: "load vault_b_removed (snd (load vault fresh)) =
              (Fulfilled, snd (load vault_b_removed (snd (load vault fresh))))"
    by code_simp
  have h2: "''b.md'' \<in> set (store_keys (snd (load vault fresh)))"
    by code_simp
  have h3: "''b.md'' \<notin> set (derived_ids vault_b_removed (baseDir vault_b_removed)
                              (glob_files vault_b_removed) (glob_files vault_b_removed))"
    by code_simp
  from stale_identifiers_deleted [OF h1 h2 h3] h1 h2 h3 show ?thesis by simp
qed




text \<open>
  Claim C5, at a configuration file that the pattern matches (\<open>config.ts\<close> under the
  pattern \<open>**/*\<close>). The full pass skips it, as the claim says; a \<open>change\<close> event for it
  passes \<open>matchesGlob\<close>, which does not ask \<open>isConfigFile\<close>, and \<open>syncData\<close> stores it
  as content.
\<close>

theorem config_file_ingested_on_change:
  "isConfigFile vault_cfg ''config.ts'' (baseDir vault_cfg) \<and>
   glob_files vault_cfg = [''a.md'', ''config.ts''] \<and>
   fst (load vault_cfg fresh) = Fulfilled \<and>
   store_keys (snd (load vault_cfg fresh)) = [''a.md''] \<and>
   store_keys (snd (handle_event vault_cfg (Change ''/site/vault/config.ts'')
                      (snd (load vault_cfg fresh)))) = [''a.md'', ''config.ts''] \<and>
   trace (snd (handle_event vault_cfg (Change ''/site/vault/config.ts'')
                 ((snd (load vault_cfg fresh))\<lparr>trace := []\<rparr>))) =
     [Call_getEntryInfo ''export {}'' ''config.ts'' [''a.md'', ''config.ts''],
      Call_parseData ''config.ts'' ''/site/vault/config.ts'',
      Call_render ''config.ts'' ''/site/vault/config.ts'',
      Store_set \<lparr>entry_id = ''config.ts'', data = ''title: config.ts'', body = Some ''export {}'',
                 filePath = Some ''vault/config.ts'', digest = Some ''#export {}'',
                 rendered = Some \<lparr>html = ''export {}'', metadata = None\<rparr>,
                 assetImports = None, deferredRender = False\<rparr>,
      Logger_info ''Reloaded data from config.ts'']"
  by code_simp



text \<open>
  Claim C7, at a file synced on the fast path. A first run stores \<open>a.md\<close>; the loader
  is started again over the same store, and its full pass finds the digest unchanged and
  returns before \<open>fileToIdMap.set\<close>. The file is synced and has no mapping, so its
  \<open>unlink\<close> event deletes nothing and the record stays in the store.
\<close>

theorem unlink_after_fast_path_keeps_record:
  "fst (load vault (restart (snd (load vault fresh)))) = Fulfilled \<and>
   store_writes (snd (load vault (restart (snd (load vault fresh))))) = [] \<and>
   fileToIdMap (snd (load vault (restart (snd (load vault fresh))))) = [] \<and>
   matchesGlob vault (posixRelative vault ''/site/vault/'' ''/site/vault/a.md'') \<and>
   handle_event vault (Unlink ''/site/vault/a.md'') (snd (load vault (restart (snd (load vault fresh))))) =
     (Fulfilled, snd (load vault (restart (snd (load vault fresh))))) \<and>
   store_keys (snd (handle_event vault (Unlink ''/site/vault/a.md'')
                      (snd (load vault (restart (snd (load vault fresh))))))) = [''a.md'', ''b.md''] \<and>
   store_keys (snd (handle_event vault (Unlink ''/site/vault/a.md'') (snd (load vault fresh)))) = [''b.md'']"
  by code_simp

text \<open>
  Claim C8, as the specification states it, fails when two entries of a pass fail
  validation: both tasks reject and nothing is logged, \<open>Promise.all\<close> hands the caller the
  rejection that came first and drops the other. If that of \<open>a.md\<close> is first, the error
  of \<open>b.md\<close> reaches nobody; if that of \<open>b.md\<close> is first, the error of \<open>a.md\<close> does
  not.
\<close>

theorem second_validation_error_is_dropped:
  "fst (syncData (vault_both_invalid 0) ''a.md'' ''file:///site/vault/'' [''a.md'', ''b.md''] fresh) =
     Rejected (ParseDataError ''invalid a.md'') \<and>
   fst (syncData (vault_both_invalid 0) ''b.md'' ''file:///site/vault/'' [''a.md'', ''b.md''] fresh) =
     Rejected (ParseDataError ''invalid b.md'') \<and>
   fst (load (vault_both_invalid 0) fresh) = Rejected (ParseDataError ''invalid a.md'') \<and>
   trace (snd (load (vault_both_invalid 0) fresh)) =
     [Call_getEntryInfo ''alpha'' ''a.md'' [''a.md'', ''b.md''],
      Call_parseData ''a.md'' ''/site/vault/a.md'',
      Call_getEntryInfo ''beta'' ''b.md'' [''a.md'', ''b.md''],
      Call_parseData ''b.md'' ''/site/vault/b.md''] \<and>
   fst (load (vault_both_invalid 1) fresh) = Rejected (ParseDataError ''invalid b.md'') \<and>
   trace (snd (load (vault_both_invalid 1) fresh)) =
     [Call_getEntryInfo ''alpha'' ''a.md'' [''a.md'', ''b.md''],
      Call_parseData ''a.md'' ''/site/vault/a.md'',
      Call_getEntryInfo ''beta'' ''b.md'' [''a.md'', ''b.md''],
      Call_parseData ''b.md'' ''/site/vault/b.md'']"
  by code_simp

text \<open>
  Claim C8, amended. When \<open>parseData\<close> throws for an entry, the task of the entry rejects
  with that error, whatever the state it runs in (short of the fast path): nothing catches
  or logs it and nothing is written to the store. In a full pass the rejection is one of
  those \<open>Promise.all\<close> receives, so the promise of \<open>load\<close> rejects and the caller sees the
  pass fail, with the error of the task that rejected first: this entry's error when no
  task of the pass rejects with another one.
\<close>

theorem validation_error_rejects_task_and_pass:
  assumes "glob_files env = pre @ entry # post"
      and "\<not> isConfigFile env entry (baseDir env)"
      and "readFile env (fileUrl_of env entry (baseDir env)) = Inr c"
      and "stat env (fileUrl_of env entry (baseDir env)) = Inr st"
      and "getEntryInfo env c (fileUrl_of env entry (baseDir env)) entry st
             (context_of env (glob_files env)) = Inr (b, d)"
      and "\<not> hit (store (state_before env s pre)) (generateId env entry (baseDir env) d)
               (generateDigest env c)"
      and "parseData env (generateId env entry (baseDir env) d) d
             (fileURLToPath env (fileUrl_of env entry (baseDir env))) = Inl msg"
  shows "(\<forall>s1. \<not> hit (store s1) (generateId env entry (baseDir env) d) (generateDigest env c) \<longrightarrow>
            fst (syncData env entry (baseDir env) (glob_files env) s1) =
              Rejected (ParseDataError msg) \<and>
            store (snd (syncData env entry (baseDir env) (glob_files env) s1)) = store s1 \<and>
            fileToIdMap (snd (syncData env entry (baseDir env) (glob_files env) s1)) =
              fileToIdMap s1 \<and>
            trace (snd (syncData env entry (baseDir env) (glob_files env) s1)) =
              trace s1 @
                [Call_getEntryInfo c entry (glob_files env),
                 Call_parseData (generateId env entry (baseDir env) d)
                   (fileURLToPath env (fileUrl_of env entry (baseDir env)))]) \<and>
         ParseDataError msg \<in> set (fst (tasks_of env s)) \<and>
         (\<exists>x\<in>set (fst (tasks_of env s)). fst (load env s) = Rejected x) \<and>
         fst (load env s) =
           Rejected (fst (tasks_of env s) !
                       (rejects_first env (fst (tasks_of env s)) mod length (fst (tasks_of env s)))) \<and>
         (set (fst (tasks_of env s)) = {ParseDataError msg} \<longrightarrow>
            fst (load env s) = Rejected (ParseDataError msg))"
proof -
  let ?b = "baseDir env" and ?fs = "glob_files env"
  let ?s0 = "s\<lparr>untouchedEntries := store_keys s\<rparr>"
  let ?sp = "state_before env s pre"
  let ?i = "generateId env entry ?b d"
  let ?rs = "fst (tasks_of env s)"
  have p: "plan_of env entry ?b ?fs =
             Sync ?i (generateDigest env c) (Inl (ParseDataError msg))"
    using assms(3,4,5,7) by (simp add: plan_of_def Let_def)
  have task: "fst (syncData env entry ?b ?fs s1) = Rejected (ParseDataError msg) \<and>
            store (snd (syncData env entry ?b ?fs s1)) = store s1 \<and>
            fileToIdMap (snd (syncData env entry ?b ?fs s1)) = fileToIdMap s1 \<and>
            trace (snd (syncData env entry ?b ?fs s1)) =
              trace s1 @ [Call_getEntryInfo c entry ?fs,
                 Call_parseData ?i (fileURLToPath env (fileUrl_of env entry ?b))]"
    if "\<not> hit (store s1) ?i (generateDigest env c)" for s1
    using that assms(3,4,5,7)
    by (simp add: syncData_def fileUrl_of_def context_of_def hit_def store_get_def emit_def
          Let_def split: option.splits)
  have "?rs = fst (sync_all env ?b ?fs (pre @ entry # post) ?s0)"
    by (simp add: tasks_of_def assms(1) [symmetric])
  also have "\<dots> = fst (sync_all env ?b ?fs pre ?s0) @ fst (sync_all env ?b ?fs (entry # post) ?sp)"
    by (simp add: sync_all_append state_before_def)
  also have "fst (sync_all env ?b ?fs (entry # post) ?sp) =
               ParseDataError msg # fst (sync_all env ?b ?fs post (snd (syncData env entry ?b ?fs ?sp)))"
    using assms(2) task [OF assms(6)] by (simp add: sync_all_Cons_fst del: sync_all.simps)
  finally have mem: "ParseDataError msg \<in> set ?rs" by simp
  then have ne: "?rs \<noteq> []" by auto
  have l: "fst (load env s) = Rejected (?rs ! (rejects_first env ?rs mod length ?rs))"
    using ne by (simp add: load_fst promise_all_Rejected)
  have "promise_all env ?rs = Rejected (?rs ! (rejects_first env ?rs mod length ?rs))"
    using ne by (rule promise_all_Rejected)
  then have in_rs: "?rs ! (rejects_first env ?rs mod length ?rs) \<in> set ?rs"
    by (rule promise_all_member)
  have ex: "\<exists>x\<in>set ?rs. fst (load env s) = Rejected x"
    using l in_rs by blast
  have only: "set ?rs = {ParseDataError msg} \<longrightarrow> fst (load env s) = Rejected (ParseDataError msg)"
    using l in_rs by auto
  from task mem ex l only show ?thesis by blast
qed

theorem validation_error_rejects_task_and_pass_witness:
  "glob_files vault_invalid = [''a.md''] @ ''b.md'' # [] \<and>
   \<not> isConfigFile vault_invalid ''b.md'' (baseDir vault_invalid) \<and>
   readFile vault_invalid (fileUrl_of vault_invalid ''b.md'' (baseDir vault_invalid)) = Inr ''beta'' \<and>
   stat vault_invalid (fileUrl_of vault_invalid ''b.md'' (baseDir vault_invalid)) = Inr 1 \<and>
   getEntryInfo vault_invalid ''beta'' (fileUrl_of vault_invalid ''b.md'' (baseDir vault_invalid))
     ''b.md'' 1 (context_of vault_invalid (glob_files vault_invalid)) = Inr (''beta'', ''title: b.md'') \<and>
   \<not> hit (store (state_before vault_invalid fresh [''a.md''])) ''b.md'' ''#beta'' \<and>
   parseData vault_invalid ''b.md'' ''title: b.md'' ''/site/vault/b.md'' = Inl ''title: Required'' \<and>
   fst (tasks_of vault_invalid fresh) = [ParseDataError ''title: Required''] \<and>
   fst (load vault_invalid fresh) = Rejected (ParseDataError ''title: Required'') \<and>
   store_get (snd (load vault_invalid fresh)) ''b.md'' = None"
proof -
  have e: "generateId vault_invalid ''b.md'' (baseDir vault_invalid) ''title: b.md'' = ''b.md''"
    "generateDigest vault_invalid ''beta'' = ''#beta''"
    "fileURLToPath vault_invalid (fileUrl_of vault_invalid ''b.md'' (baseDir vault_invalid)) = ''/site/vault/b.md''"
    by code_simp+
  have h1: "glob_files vault_invalid = [''a.md''] @ ''b.md'' # []"
    by code_simp
  have h2: "\<not> isConfigFile vault_invalid ''b.md'' (baseDir vault_invalid)"
    by code_simp
  have h3: "readFile vault_invalid (fileUrl_of vault_invalid ''b.md'' (baseDir vault_invalid)) = Inr ''beta''"
    by code_simp
  have h4: "stat vault_invalid (fileUrl_of vault_invalid ''b.md'' (baseDir vault_invalid)) = Inr 1"
    by code_simp
  have h5: "getEntryInfo vault_invalid ''beta'' (fileUrl_of vault_invalid ''b.md'' (baseDir vault_invalid))
     ''b.md'' 1 (context_of vault_invalid (glob_files vault_invalid)) = Inr (''beta'', ''title: b.md'')"
    by code_simp
  have h6: "\<not> hit (store (state_before vault_invalid fresh [''a.md''])) ''b.md'' ''#beta''"
    by code_simp
  have h7: "parseData vault_invalid ''b.md'' ''title: b.md'' ''/site/vault/b.md'' = Inl ''title: Required''"
    by code_simp
  have r: "fst (tasks_of vault_invalid fresh) = [ParseDataError ''title: Required'']"
    by code_simp
  have g: "store_get (snd (load vault_invalid fresh)) ''b.md'' = None"
    by code_simp
  note t = validation_error_rejects_task_and_pass
    [of vault_invalid "[''a.md'']" "''b.md''" "[]" "''beta''" 1 "''beta''" "''title: b.md''" fresh
        "''title: Required''", unfolded e, OF h1 h2 h3 h4 h5 h6 h7]
  note only = t [THEN conjunct2, THEN conjunct2, THEN conjunct2, THEN conjunct2]
  from only r have v: "fst (load vault_invalid fresh) = Rejected (ParseDataError ''title: Required'')"
    by simp
  from h1 h2 h3 h4 h5 h6 h7 r v g show ?thesis by (intro conjI)
qed



text \<open>
  Claim C10. A watch event whose path, taken relative to the base, begins with \<open>../\<close>
  does not match; the \<open>add\<close>/\<open>change\<close> handler and the \<open>unlink\<close> handler return at
  once and leave the state as it was: \<open>syncData\<close> is not called and the store is not
  touched.
\<close>

theorem escaping_path_is_discarded:
  assumes "prefix ''../'' (posixRelative env basePath p)"
  shows "\<not> matchesGlob env (posixRelative env basePath p) \<and>
         onChange env files basePath p s = (Fulfilled, s) \<and>
         onUnlink env basePath p s = (Fulfilled, s)"
  using assms by (simp add: matchesGlob_def onChange_def onUnlink_def)

theorem escaping_path_is_discarded_witness:
  "prefix ''../'' (posixRelative vault ''/site/vault/'' ''/site/drafts/c.md'') \<and>
   \<not> matchesGlob vault (posixRelative vault ''/site/vault/'' ''/site/drafts/c.md'') \<and>
   onChange vault [''a.md'', ''b.md''] ''/site/vault/'' ''/site/drafts/c.md'' fresh = (Fulfilled, fresh) \<and>
   onUnlink vault ''/site/vault/'' ''/site/drafts/c.md'' fresh = (Fulfilled, fresh)"
proof -
  have h: "prefix ''../'' (posixRelative vault ''/site/vault/'' ''/site/drafts/c.md'')"
    by code_simp
  from escaping_path_is_discarded [OF h, of "[''a.md'', ''b.md'']" fresh] h show ?thesis
    by simp
qed

end
